theory Spec2Isabelle
  imports Main "HOL-Library.Sublist"
begin

section \<open>Python strings\<close>

text \<open>
  A Python \<open>str\<close> is a sequence of code points. The model uses \<open>string\<close>, reading each
  \<open>char\<close> as the code point of the same number, so it covers the texts whose code points
  are below 256. The library functions the scraper calls on strings are written out below
  with Python's meaning on that range.
\<close>

definition is_space :: "char \<Rightarrow> bool" where
  \<comment> \<open>\<open>str.isspace\<close> on one character: U+0009..U+000D, U+001C..U+0020, U+0085, U+00A0.\<close>
  "is_space c =
     (let n = (of_char c :: nat)
      in (9 \<le> n \<and> n \<le> 13) \<or> (28 \<le> n \<and> n \<le> 32) \<or> n = 133 \<or> n = 160)"

definition is_digit :: "char \<Rightarrow> bool" where
  \<comment> \<open>the regular expression class \<open>\d\<close>: below 256 the decimal digits are 0..9.\<close>
  "is_digit c = (let n = (of_char c :: nat) in 48 \<le> n \<and> n \<le> 57)"

definition lower_char :: "char \<Rightarrow> char" where
  \<comment> \<open>\<open>str.lower\<close> on one character: A..Z and the Latin-1 capitals U+00C0..U+00DE
      (without the multiplication sign U+00D7) move up by 32.\<close>
  "lower_char c =
     (let n = (of_char c :: nat)
      in if (65 \<le> n \<and> n \<le> 90) \<or> (192 \<le> n \<and> n \<le> 222 \<and> n \<noteq> 215)
         then char_of (n + 32) else c)"

definition lower :: "string \<Rightarrow> string" where
  "lower s = map lower_char s"

definition strip :: "string \<Rightarrow> string" where
  \<comment> \<open>\<open>s.strip()\<close>: whitespace removed at both ends.\<close>
  "strip s = rev (dropWhile is_space (rev (dropWhile is_space s)))"

fun str_in :: "string \<Rightarrow> string \<Rightarrow> bool" where
  \<comment> \<open>\<open>sub in s\<close>: \<open>sub\<close> occurs in \<open>s\<close> as a contiguous substring.\<close>
  "str_in sub [] = (sub = [])"
| "str_in sub (c # cs) = (prefix sub (c # cs) \<or> str_in sub cs)"

fun find_str :: "string \<Rightarrow> string \<Rightarrow> nat option" where
  \<comment> \<open>\<open>s.find(sub)\<close>: the index of the leftmost occurrence, \<open>None\<close> for Python's -1.\<close>
  "find_str sub [] = (if sub = [] then Some 0 else None)"
| "find_str sub (c # cs) =
     (if prefix sub (c # cs) then Some 0 else map_option Suc (find_str sub cs))"

function split_str :: "string \<Rightarrow> string \<Rightarrow> string list" where
  \<comment> \<open>\<open>s.split(sep)\<close>: cut at the occurrences of \<open>sep\<close>, found from the left without
      overlap. Python raises ValueError on an empty separator; the scraper only passes
      non-empty literals.\<close>
  "split_str sep s =
     (if sep = [] then [s]
      else case find_str sep s of
             None \<Rightarrow> [s]
           | Some i \<Rightarrow> take i s # split_str sep (drop (i + length sep) s))"
  by pat_completeness auto
termination
proof (relation "measure (\<lambda>(sep, s). length s)")
  show "wf (measure (\<lambda>(sep, s). length s))" by simp
next
  fix sep s :: string and i :: nat
  assume "sep \<noteq> []" and "find_str sep s = Some i"
  then have "s \<noteq> []" by (cases s) auto
  with \<open>sep \<noteq> []\<close>
  show "((sep, drop (i + length sep) s), (sep, s)) \<in> measure (\<lambda>(sep, s). length s)"
    by (cases sep) auto
qed

definition split_max1 :: "string \<Rightarrow> string \<Rightarrow> string list" where
  \<comment> \<open>\<open>s.split(sep, 1)\<close>: at most one cut, at the leftmost occurrence.\<close>
  "split_max1 sep s =
     (case find_str sep s of
        None \<Rightarrow> [s]
      | Some i \<Rightarrow> [take i s, drop (i + length sep) s])"

fun split_ws_from :: "string \<Rightarrow> string \<Rightarrow> string list" where
  \<comment> \<open>the scan of \<open>s.split()\<close>; the first argument is the token being read, reversed.\<close>
  "split_ws_from tok [] = (if tok = [] then [] else [rev tok])"
| "split_ws_from tok (c # cs) =
     (if is_space c
      then (if tok = [] then split_ws_from [] cs else rev tok # split_ws_from [] cs)
      else split_ws_from (c # tok) cs)"

definition split_ws :: "string \<Rightarrow> string list" where
  \<comment> \<open>\<open>s.split()\<close>: the maximal runs of non-whitespace characters.\<close>
  "split_ws s = split_ws_from [] s"

fun join :: "string \<Rightarrow> string list \<Rightarrow> string" where
  \<comment> \<open>\<open>sep.join(xs)\<close>\<close>
  "join sep [] = []"
| "join sep [x] = x"
| "join sep (x # y # ys) = x @ sep @ join sep (y # ys)"

fun remove_stars :: "string \<Rightarrow> string" where
  \<comment> \<open>\<open>s.replace('**', '')\<close>: the pairs of stars are removed from the left, without
      overlap.\<close>
  "remove_stars (CHR ''*'' # CHR ''*'' # s) = remove_stars s"
| "remove_stars (c # s) = c # remove_stars s"
| "remove_stars [] = []"

fun re_search_batch :: "string \<Rightarrow> string option" where
  \<comment> \<open>\<open>re.search(r'[SWFX]\d{2}', line)\<close>: the leftmost match, \<open>None\<close> without one.\<close>
  "re_search_batch (c # d1 # d2 # s) =
     (if c \<in> set ''SWFX'' \<and> is_digit d1 \<and> is_digit d2 then Some [c, d1, d2]
      else re_search_batch (d1 # d2 # s))"
| "re_search_batch s = None"

section \<open>Founder records\<close>

text \<open>
  The scraper keeps each founder as a dict from field names to values. A value is a
  \<open>str\<close> or \<open>None\<close> (what \<open>get_attribute\<close> and \<open>extract_linkedin_url\<close> can return).
\<close>

datatype pyval = PyNone | PyStr string

type_synonym pydict = "string \<rightharpoonup> pyval"

definition truthy :: "pyval option \<Rightarrow> bool" where
  \<comment> \<open>Python's truth value of \<open>d.get(k)\<close>: only a non-empty string is true.\<close>
  "truthy v = (case v of Some (PyStr s) \<Rightarrow> s \<noteq> [] | _ \<Rightarrow> False)"

section \<open>The text parser\<close>

definition role_indicators :: "string list" where
  "role_indicators =
     [''CEO'', ''CTO'', ''Founder'', ''Co-founder'', ''President'', ''VP'', ''Chief'',
      ''Director'']"

definition has_indicator :: "string \<Rightarrow> bool" where
  \<comment> \<open>\<open>any(indicator in line for indicator in role_indicators)\<close>\<close>
  "has_indicator line = list_ex (\<lambda>indicator. str_in indicator line) role_indicators"

definition text_lines :: "string \<Rightarrow> string list" where
  \<comment> \<open>\<open>[line.strip() for line in text.split('\n') if line.strip()]\<close>\<close>
  "text_lines t =
     map strip (filter (\<lambda>line. strip line \<noteq> []) (split_str [CHR 0x0A] t))"

definition empty_info :: pydict where
  "empty_info =
     [''first_name'' \<mapsto> PyStr [], ''last_name'' \<mapsto> PyStr [],
      ''current_role'' \<mapsto> PyStr [], ''current_company'' \<mapsto> PyStr [],
      ''batch'' \<mapsto> PyStr [], ''linkedin_url'' \<mapsto> PyStr []]"

definition set_name :: "string \<Rightarrow> pydict \<Rightarrow> pydict" where
  \<comment> \<open>lines 186-191: the first line is the founder's name.\<close>
  "set_name line0 fi =
     (case split_ws line0 of
        [] \<Rightarrow> fi
      | [p] \<Rightarrow> fi(''first_name'' \<mapsto> PyStr p)
      | p # ps \<Rightarrow> fi(''first_name'' \<mapsto> PyStr p, ''last_name'' \<mapsto> PyStr (join '' '' ps)))"

definition is_role_at_company :: "string \<Rightarrow> bool" where
  \<comment> \<open>the test of line 196\<close>
  "is_role_at_company line = (str_in '' at '' line \<and> has_indicator line)"

definition role_rule :: "string \<Rightarrow> pydict \<Rightarrow> pydict" where
  \<comment> \<open>lines 210-213\<close>
  "role_rule line fi =
     (if \<not> truthy (fi ''current_role'') \<and> has_indicator line
      then fi(''current_role'' \<mapsto> PyStr line) else fi)"

definition parse_line :: "string \<Rightarrow> pydict \<Rightarrow> pydict" where
  \<comment> \<open>the body of the loop of lines 194-213, on one line\<close>
  "parse_line line fi =
     (if is_role_at_company line then
        (case split_max1 '' at '' line of
           [p0, p1] \<Rightarrow>
             fi(''current_role'' \<mapsto> PyStr (strip p0), ''current_company'' \<mapsto> PyStr (strip p1))
         | _ \<Rightarrow> fi)
      else
        (case re_search_batch line of
           Some m \<Rightarrow>
             (if \<not> truthy (fi ''batch'') then fi(''batch'' \<mapsto> PyStr m)
              else role_rule line fi)
         | None \<Rightarrow> role_rule line fi))"

definition clean_field :: "string \<Rightarrow> pydict \<Rightarrow> pydict" where
  \<comment> \<open>lines 216-221: a non-empty field loses its \<open>**\<close> markers and is stripped again.\<close>
  "clean_field k fi =
     (case fi k of
        Some (PyStr s) \<Rightarrow>
          (if s \<noteq> [] then fi(k \<mapsto> PyStr (strip (remove_stars s))) else fi)
      | _ \<Rightarrow> fi)"

definition parse_founder_text :: "string \<Rightarrow> pydict" where
  "parse_founder_text t =
     (case text_lines t of
        [] \<Rightarrow> empty_info
      | line0 # rest \<Rightarrow>
          clean_field ''current_company''
            (clean_field ''current_role''
               (fold parse_line rest (set_name line0 empty_info))))"

section \<open>The profile link resolver\<close>

text \<open>
  The browser is outside the program. A call of the driver either raises or returns; the
  page a profile URL leads to is given by what \<open>find_elements\<close> returns for the selector
  \<open>a[href*='linkedin.com']\<close>, in document order, each element by the outcome of
  \<open>get_attribute('href')\<close>.
\<close>

datatype 'a outcome = Raised | Returned 'a

datatype page_load =
    Failed  \<comment> \<open>navigation, the wait for the body or \<open>find_elements\<close> raised\<close>
  | Loaded "string option outcome list"

definition classify :: "string option outcome \<Rightarrow> string list \<times> string list \<Rightarrow> string list \<times> string list" where
  \<comment> \<open>the body of the loop of lines 245-267 on the pair
      \<open>(personal_linkedin_urls, company_linkedin_urls)\<close>\<close>
  "classify element urls =
     (case urls of (personal, company) \<Rightarrow>
        (case element of
           Raised \<Rightarrow> (personal, company)
         | Returned None \<Rightarrow> (personal, company)
         | Returned (Some linkedin_url) \<Rightarrow>
             if linkedin_url = [] \<or> \<not> str_in ''linkedin.com'' linkedin_url then (personal, company)
             else if str_in ''/in/'' linkedin_url then (personal @ [linkedin_url], company)
             else if str_in ''/company/'' linkedin_url then (personal, company @ [linkedin_url])
             else if str_in ''/pub/'' linkedin_url then (personal @ [linkedin_url], company)
             else (personal, company)))"

definition founder_name_from_url :: "string \<Rightarrow> string" where
  \<comment> \<open>lines 273-278\<close>
  "founder_name_from_url profile_url =
     (if str_in ''/founders/'' profile_url then
        (let url_parts = split_str ''-'' (last (split_str ''/founders/'' profile_url))
         in if length url_parts > 1 then lower (join ''-'' (tl url_parts)) else [])
      else [])"

definition linkedin_username :: "string \<Rightarrow> string" where
  \<comment> \<open>line 283\<close>
  "linkedin_username linkedin_url =
     lower (hd (split_str ''/'' (last (split_str ''/in/'' linkedin_url))))"

definition name_match :: "string \<Rightarrow> string \<Rightarrow> bool" where
  \<comment> \<open>the test of line 286\<close>
  "name_match name linkedin_url =
     (name \<noteq> [] \<and>
      list_ex (\<lambda>name_part. str_in name_part (linkedin_username linkedin_url))
        (filter (\<lambda>name_part. length name_part > 2) (split_str ''-'' name)))"

fun best_match :: "string \<Rightarrow> string list \<Rightarrow> string option" where
  \<comment> \<open>the loop of lines 281-289: it stops at the first match\<close>
  "best_match name [] = None"
| "best_match name (linkedin_url # urls) =
     (if name_match name linkedin_url then Some linkedin_url else best_match name urls)"

definition extract_linkedin_url :: "page_load \<Rightarrow> string \<Rightarrow> string option" where
  \<comment> \<open>the first argument is what the browser shows for \<open>profile_url\<close>\<close>
  "extract_linkedin_url page profile_url =
     (if profile_url = [] then None
      else case page of
             Failed \<Rightarrow> None
           | Loaded linkedin_elements \<Rightarrow>
               (case fold classify linkedin_elements ([], []) of (personal, company) \<Rightarrow>
                  if personal \<noteq> [] then
                    (case best_match (founder_name_from_url profile_url) personal of
                       Some url \<Rightarrow> Some url
                     | None \<Rightarrow> Some (hd personal))
                  else if company \<noteq> [] then Some (hd company)
                  else None))"

section \<open>The overview extractor and the main routine\<close>

record element =
  href :: "string option outcome"  \<comment> \<open>\<open>element.get_attribute('href')\<close>\<close>
  text_content :: "string outcome"  \<comment> \<open>\<open>element.text\<close>\<close>

definition founder_of_element :: "element \<Rightarrow> pydict option" where
  \<comment> \<open>the body of the loop of lines 146-164; \<open>None\<close> when the element is skipped\<close>
  "founder_of_element e =
     (case href e of
        Raised \<Rightarrow> None
      | Returned h \<Rightarrow>
          (case text_content e of
             Raised \<Rightarrow> None
           | Returned t \<Rightarrow>
               Some ((parse_founder_text (strip t))
                       (''profile_url'' \<mapsto> (case h of None \<Rightarrow> PyNone | Some u \<Rightarrow> PyStr u)))))"

definition extract_founder_overview_data :: "element list \<Rightarrow> element list \<Rightarrow> pydict list" where
  \<comment> \<open>the arguments are the elements of the primary and of the fallback selector\<close>
  "extract_founder_overview_data primary fallback =
     List.map_filter founder_of_element (if primary = [] then fallback else primary)"

definition add_linkedin_url :: "(string \<Rightarrow> page_load) \<Rightarrow> pydict \<Rightarrow> pydict" where
  \<comment> \<open>lines 404-406; \<open>site\<close> gives the page behind each profile URL\<close>
  "add_linkedin_url site founder =
     (case founder ''profile_url'' of
        Some (PyStr profile_url) \<Rightarrow>
          if profile_url \<noteq> [] then
            founder(''linkedin_url'' \<mapsto>
              PyStr (case extract_linkedin_url (site profile_url) profile_url of
                       None \<Rightarrow> []
                     | Some linkedin_url \<Rightarrow> linkedin_url))
          else founder
      | _ \<Rightarrow> founder)"

datatype listing =
    Listing_Failed  \<comment> \<open>the driver could not be set up, or a call on the listing page raised\<close>
  | Listing "element list" "element list"

definition scrape_founders :: "listing \<Rightarrow> (string \<Rightarrow> page_load) \<Rightarrow> pydict list" where
  "scrape_founders page site =
     (case page of
        Listing_Failed \<Rightarrow> []
      | Listing primary fallback \<Rightarrow>
          map (add_linkedin_url site) (extract_founder_overview_data primary fallback))"

section \<open>The exporter\<close>

text \<open>
  \<open>csv.DictWriter\<close> is the library's; the file it writes is modelled by its rows, each
  the list of its cells. The file system maps a file name to the rows written. It is
  outside the program: \<open>can_open filename\<close> says whether \<open>open(filename, 'w', ...)\<close> of line
  429 succeeds. When it raises (a missing directory, an empty name, no permission),
  \<open>save_to_csv\<close> has no handler: the exception leaves the function, no row is written and
  the file system stays as it was.
\<close>

type_synonym files = "string \<rightharpoonup> string list list"

definition columns :: "string list" where
  "columns =
     [''first_name'', ''last_name'', ''current_role'', ''current_company'', ''batch'',
      ''linkedin_url'', ''profile_url'']"

definition dict_get :: "pydict \<Rightarrow> string \<Rightarrow> pyval \<Rightarrow> pyval" where
  \<comment> \<open>\<open>d.get(k, default)\<close>\<close>
  "dict_get d k dflt = (case d k of None \<Rightarrow> dflt | Some v \<Rightarrow> v)"

definition cell :: "pyval \<Rightarrow> string" where
  \<comment> \<open>the csv writer writes \<open>None\<close> as the empty string\<close>
  "cell v = (case v of PyNone \<Rightarrow> [] | PyStr s \<Rightarrow> s)"

definition writerow :: "pydict \<Rightarrow> string list" where
  \<comment> \<open>lines 435-436\<close>
  "writerow founder = map (\<lambda>col. cell (dict_get founder col (PyStr []))) columns"

definition save_to_csv ::
  "(string \<Rightarrow> bool) \<Rightarrow> pydict list \<Rightarrow> string \<Rightarrow> files \<Rightarrow> files outcome" where
  \<comment> \<open>\<open>Raised\<close>: the exception of \<open>open\<close>; \<open>Returned\<close>: the file system after the call\<close>
  "save_to_csv can_open data filename fs =
     (if data = [] then Returned fs
      else if \<not> can_open filename then Raised
      else Returned (fs(filename \<mapsto> columns # map writerow data)))"

section \<open>The exhaustive loader\<close>

text \<open>
  The page is given by what the loop observes in its successive iterations: \<open>page i\<close> is
  the pair of \<open>document.body.scrollHeight\<close> and of the number of founder cards read in
  iteration \<open>i\<close> (from 0). The loop has no bound, so it is a partial function: \<open>None\<close> is
  the loop that never ends. A run that ends returns the number of iterations made and
  \<open>founders_loaded\<close>.
\<close>

partial_function (option) scroll_loop ::
  "(nat \<Rightarrow> nat \<times> nat) \<Rightarrow> nat \<Rightarrow> nat \<Rightarrow> nat \<Rightarrow> nat \<Rightarrow> (nat \<times> nat) option" where
  "scroll_loop page i last_height founders_loaded no_change_count =
     (let new_height = fst (page i);
          current_founders = snd (page i);
          loaded = (if current_founders > founders_loaded then current_founders
                    else founders_loaded);
          count1 = (if current_founders > founders_loaded then 0 else no_change_count + 1)
      in if new_height = last_height then
           (if count1 + 1 \<ge> 3 then Some (i + 1, loaded)
            else scroll_loop page (i + 1) new_height loaded (count1 + 1))
         else scroll_loop page (i + 1) new_height loaded 0)"

definition scroll_to_load_all_founders :: "nat \<Rightarrow> (nat \<Rightarrow> nat \<times> nat) \<Rightarrow> (nat \<times> nat) option" where
  \<comment> \<open>lines 91-93: the first argument is the height read before the loop\<close>
  "scroll_to_load_all_founders height0 page = scroll_loop page 0 height0 0 0"

section \<open>Properties of the text parser\<close>

subsection \<open>Whitespace\<close>

lemma split_ws_from_blank:
  "list_all is_space s \<Longrightarrow> split_ws_from tok s = (if tok = [] then [] else [rev tok])"
  by (induction s arbitrary: tok) auto

lemma split_ws_from_lstrip:
  "split_ws_from [] (dropWhile is_space s) = split_ws_from [] s"
  by (induction s) auto

lemma rstrip_Cons:
  "rev (dropWhile is_space (rev cs @ [c])) =
     (if list_all is_space cs then (if is_space c then [] else [c])
      else c # rev (dropWhile is_space (rev cs)))"
  by (auto simp: dropWhile_append list_all_iff)

lemma split_ws_from_rstrip:
  "split_ws_from tok (rev (dropWhile is_space (rev s))) = split_ws_from tok s"
proof (induction s arbitrary: tok)
  case Nil
  show ?case by simp
next
  case (Cons c cs)
  show ?case
  proof (cases "list_all is_space cs")
    case True
    then show ?thesis
      by (simp add: rstrip_Cons split_ws_from_blank)
  next
    case False
    then show ?thesis
      by (simp add: rstrip_Cons Cons.IH)
  qed
qed

lemma split_ws_strip: "split_ws (strip s) = split_ws s"
  by (simp add: split_ws_def strip_def split_ws_from_rstrip split_ws_from_lstrip)

lemma split_ws_from_nonempty:
  "split_ws_from tok s \<noteq> [] \<longleftrightarrow> tok \<noteq> [] \<or> \<not> list_all is_space s"
  by (induction s arbitrary: tok) auto

lemma all_dropWhile_iff:
  "(\<forall>x\<in>set (dropWhile P s). P x) \<longleftrightarrow> (\<forall>x\<in>set s. P x)"
  by (induction s) auto

lemma strip_empty_iff: "strip s = [] \<longleftrightarrow> list_all is_space s"
  by (simp add: strip_def list_all_iff dropWhile_eq_Nil_conv all_dropWhile_iff)

lemma split_ws_empty_iff: "split_ws s = [] \<longleftrightarrow> strip s = []"
  using split_ws_from_nonempty [of "[]" s] by (simp add: split_ws_def strip_empty_iff)

subsection \<open>Substring search\<close>

lemma str_in_find: "str_in sub s \<longleftrightarrow> find_str sub s \<noteq> None"
  by (induction s) auto

lemma prefix_append_long:
  "length sep \<le> length u \<Longrightarrow> prefix sep (u @ v) \<longleftrightarrow> prefix sep u"
  by (auto simp: prefix_append dest: prefix_length_le)

lemma find_str_leftmost:
  assumes "sep \<noteq> []" and "\<not> str_in sep (x @ butlast sep)"
  shows "find_str sep (x @ sep @ y) = Some (length x)"
  using assms
proof (induction x)
  case Nil
  then show ?case by (cases sep) auto
next
  case (Cons a x)
  from Cons.prems have np: "\<not> prefix sep (a # x @ butlast sep)"
    and ns: "\<not> str_in sep (x @ butlast sep)" by auto
  have "a # x @ sep @ y = (a # x @ butlast sep) @ (last sep # y)"
    using Cons.prems(1) by (simp add: snoc_eq_iff_butlast)
  moreover have "length sep \<le> length (a # x @ butlast sep)" by simp
  ultimately have "\<not> prefix sep (a # x @ sep @ y)"
    using np prefix_append_long by metis
  with Cons.IH [OF Cons.prems(1) ns] show ?case by simp
qed

lemma split_max1_leftmost:
  assumes "sep \<noteq> []" and "\<not> str_in sep (x @ butlast sep)"
  shows "split_max1 sep (x @ sep @ y) = [x, y]"
  by (simp add: split_max1_def find_str_leftmost [OF assms])

lemma find_str_prefix: "find_str sub s = Some i \<Longrightarrow> prefix sub (drop i s)"
  by (induction s arbitrary: i) (auto split: if_splits)

subsection \<open>The loop over the lines: role and company\<close>

lemma parse_line_frame:
  "k \<noteq> ''current_role'' \<Longrightarrow> k \<noteq> ''current_company'' \<Longrightarrow> k \<noteq> ''batch'' \<Longrightarrow>
   parse_line l fi k = fi k"
  by (simp add: parse_line_def role_rule_def split: list.splits option.splits)

lemma fold_parse_line_frame:
  "k \<noteq> ''current_role'' \<Longrightarrow> k \<noteq> ''current_company'' \<Longrightarrow> k \<noteq> ''batch'' \<Longrightarrow>
   fold parse_line ls fi k = fi k"
  by (induction ls arbitrary: fi) (simp_all add: parse_line_frame)

lemma clean_field_other: "k' \<noteq> k \<Longrightarrow> clean_field k fi k' = fi k'"
  by (simp add: clean_field_def split: option.splits pyval.splits)

lemma clean_field_same:
  "fi k = Some (PyStr s) \<Longrightarrow> clean_field k fi k = Some (PyStr (strip (remove_stars s)))"
  by (simp add: clean_field_def strip_def)

lemma strip_hd:
  assumes "strip x \<noteq> []"
  shows "\<not> is_space (hd (strip x))"
proof -
  have ne: "dropWhile is_space x \<noteq> []"
  proof
    assume "dropWhile is_space x = []"
    then have "strip x = []" by (simp add: strip_def del: dropWhile_eq_Nil_conv)
    with assms show False by simp
  qed
  then obtain c cs where d: "dropWhile is_space x = c # cs"
    by (cases "dropWhile is_space x") auto
  with hd_dropWhile [OF ne] have "\<not> is_space c" by simp
  then show ?thesis
    by (simp add: strip_def d rstrip_Cons)
qed

lemma text_lines_stripped:
  "l \<in> set (text_lines t) \<Longrightarrow> l \<noteq> [] \<and> \<not> is_space (hd l)"
  by (auto simp: text_lines_def strip_hd)

lemma role_part_nonempty:
  assumes "l \<noteq> []" and "\<not> is_space (hd l)" and "split_max1 '' at '' l = [p0, p1]"
  shows "strip p0 \<noteq> []"
proof -
  from assms(3) obtain i where f: "find_str '' at '' l = Some i" and p0: "p0 = take i l"
    by (auto simp: split_max1_def split: option.splits)
  from find_str_prefix [OF f] have "prefix '' at '' (drop i l)" .
  then have "hd (drop i l) = CHR '' ''"
    by (cases "drop i l") auto
  moreover have "is_space CHR '' ''"
    by (simp add: is_space_def)
  ultimately have "i \<noteq> 0"
    using assms(2) by (cases i) auto
  with assms(1,2) p0 have "p0 \<noteq> []" and "\<not> is_space (hd p0)"
    by (cases l; cases i; simp)+
  then have "\<not> list_all is_space p0"
    by (cases p0) auto
  then show ?thesis by (simp add: strip_empty_iff)
qed

lemma parse_line_combined:
  assumes "is_role_at_company l" and "split_max1 '' at '' l = [p0, p1]"
  shows "parse_line l fi =
           fi(''current_role'' \<mapsto> PyStr (strip p0), ''current_company'' \<mapsto> PyStr (strip p1))"
  using assms by (simp add: parse_line_def)

lemma parse_line_keeps_company:
  "\<not> is_role_at_company l \<Longrightarrow> parse_line l fi ''current_company'' = fi ''current_company''"
  by (simp add: parse_line_def role_rule_def split: option.splits)

lemma parse_line_keeps_role:
  "\<not> is_role_at_company l \<Longrightarrow> truthy (fi ''current_role'') \<Longrightarrow>
   parse_line l fi ''current_role'' = fi ''current_role''"
  by (simp add: parse_line_def role_rule_def split: option.splits)

lemma fold_keeps_company:
  "\<not> list_ex is_role_at_company ls \<Longrightarrow>
   fold parse_line ls fi ''current_company'' = fi ''current_company''"
  by (induction ls arbitrary: fi) (simp_all add: parse_line_keeps_company)

lemma fold_keeps_role:
  "\<not> list_ex is_role_at_company ls \<Longrightarrow> truthy (fi ''current_role'') \<Longrightarrow>
   fold parse_line ls fi ''current_role'' = fi ''current_role''"
  by (induction ls arbitrary: fi) (simp_all add: parse_line_keeps_role)

lemma last_role_at_company:
  assumes lines: "text_lines t = n # pre @ l # post"
      and comb: "is_role_at_company l"
      and post: "\<not> list_ex is_role_at_company post"
      and parts: "split_max1 '' at '' l = [p0, p1]"
  shows "parse_founder_text t ''current_role'' = Some (PyStr (strip (remove_stars (strip p0))))"
    and "parse_founder_text t ''current_company'' = Some (PyStr (strip (remove_stars (strip p1))))"
proof -
  define fi0 where "fi0 = fold parse_line pre (set_name n empty_info)"
  define fi1 where "fi1 = parse_line l fi0"
  define fi2 where "fi2 = fold parse_line post fi1"
  have "l \<in> set (text_lines t)" by (simp add: lines)
  then have "l \<noteq> []" and "\<not> is_space (hd l)"
    using text_lines_stripped by blast+
  then have ne: "strip p0 \<noteq> []"
    using parts by (rule role_part_nonempty)
  have fi1: "fi1 = fi0(''current_role'' \<mapsto> PyStr (strip p0), ''current_company'' \<mapsto> PyStr (strip p1))"
    unfolding fi1_def using comb parts by (rule parse_line_combined)
  then have "truthy (fi1 ''current_role'')"
    using ne by (simp add: truthy_def)
  then have r: "fi2 ''current_role'' = Some (PyStr (strip p0))"
    unfolding fi2_def using post fi1 by (simp add: fold_keeps_role)
  have c: "fi2 ''current_company'' = Some (PyStr (strip p1))"
    unfolding fi2_def using post fi1 by (simp add: fold_keeps_company)
  have p: "parse_founder_text t =
             clean_field ''current_company'' (clean_field ''current_role'' fi2)"
    by (simp add: parse_founder_text_def lines fi2_def fi1_def fi0_def)
  show "parse_founder_text t ''current_role'' = Some (PyStr (strip (remove_stars (strip p0))))"
    by (simp add: p clean_field_other clean_field_same [of fi2 "''current_role''", OF r])
  have "clean_field ''current_role'' fi2 ''current_company'' = Some (PyStr (strip p1))"
    by (simp add: clean_field_other c)
  then show "parse_founder_text t ''current_company'' = Some (PyStr (strip (remove_stars (strip p1))))"
    by (simp add: p clean_field_same)
qed

subsection \<open>The batch pattern\<close>

text \<open>
  \<open>re_search_batch\<close> is the leftmost match: a code at a position is returned when no code
  starts at an earlier position, and there is no result when no position holds a code.
\<close>

lemma re_search_batch_skip:
  "\<not> (c \<in> set ''SWFX'' \<and> is_digit d1 \<and> is_digit d2) \<Longrightarrow>
   re_search_batch (c # d1 # d2 # s) = re_search_batch (d1 # d2 # s)"
  by auto

lemma re_search_batch_hit:
  "c \<in> set ''SWFX'' \<and> is_digit d1 \<and> is_digit d2 \<Longrightarrow>
   re_search_batch (c # d1 # d2 # s) = Some [c, d1, d2]"
  by auto

lemma re_search_batch_short: "length s < 3 \<Longrightarrow> re_search_batch s = None"
  by (cases s rule: re_search_batch.cases) auto

lemma re_search_batch_leftmost:
  assumes "c \<in> set ''SWFX'' \<and> is_digit d1 \<and> is_digit d2"
      and "\<forall>i<length p. \<not> (p @ [c, d1]) ! i \<in> set ''SWFX''
             \<or> \<not> is_digit ((p @ [c, d1]) ! Suc i)
             \<or> \<not> is_digit ((p @ [c, d1]) ! Suc (Suc i))"
  shows "re_search_batch (p @ c # d1 # d2 # r) = Some [c, d1, d2]"
  using assms(2)
proof (induction p)
  case Nil
  show ?case using assms(1) by (simp only: append_Nil re_search_batch_hit)
next
  case (Cons a p)
  obtain e1 e2 t where sh: "p @ c # d1 # d2 # r = e1 # e2 # t"
    and e1: "e1 = (p @ [c, d1]) ! 0" and e2: "e2 = (p @ [c, d1]) ! Suc 0"
    by (cases p; cases "tl p") auto
  from Cons.prems have "\<not> a \<in> set ''SWFX'' \<or> \<not> is_digit e1 \<or> \<not> is_digit e2"
    unfolding e1 e2 by (auto simp del: set_simps dest: spec [where x = 0])
  then have "re_search_batch ((a # p) @ c # d1 # d2 # r) = re_search_batch (p @ c # d1 # d2 # r)"
    unfolding append_Cons sh by (intro re_search_batch_skip) blast
  moreover have "\<forall>i<length p. \<not> (p @ [c, d1]) ! i \<in> set ''SWFX''
             \<or> \<not> is_digit ((p @ [c, d1]) ! Suc i)
             \<or> \<not> is_digit ((p @ [c, d1]) ! Suc (Suc i))"
  proof (intro allI impI)
    fix i assume "i < length p"
    then have "Suc i < length (a # p)" by simp
    from Cons.prems [rule_format, OF this] show "\<not> (p @ [c, d1]) ! i \<in> set ''SWFX''
             \<or> \<not> is_digit ((p @ [c, d1]) ! Suc i)
             \<or> \<not> is_digit ((p @ [c, d1]) ! Suc (Suc i))"
      by (simp del: set_simps)
  qed
  ultimately show ?case using Cons.IH by simp
qed

lemma re_search_batch_none:
  assumes "\<forall>i. Suc (Suc i) < length s \<longrightarrow>
             \<not> s ! i \<in> set ''SWFX'' \<or> \<not> is_digit (s ! Suc i) \<or> \<not> is_digit (s ! Suc (Suc i))"
  shows "re_search_batch s = None"
  using assms
proof (induction s rule: re_search_batch.induct)
  case (1 c d1 d2 s)
  from "1.prems" [rule_format, of 0]
  have no: "\<not> (c \<in> set ''SWFX'' \<and> is_digit d1 \<and> is_digit d2)"
    by (simp del: set_simps)
  have "\<forall>i. Suc (Suc i) < length (d1 # d2 # s) \<longrightarrow>
          \<not> (d1 # d2 # s) ! i \<in> set ''SWFX'' \<or> \<not> is_digit ((d1 # d2 # s) ! Suc i)
          \<or> \<not> is_digit ((d1 # d2 # s) ! Suc (Suc i))"
  proof (intro allI impI)
    fix i assume "Suc (Suc i) < length (d1 # d2 # s)"
    then have "Suc (Suc (Suc i)) < length (c # d1 # d2 # s)" by simp
    from "1.prems" [rule_format, OF this]
    show "\<not> (d1 # d2 # s) ! i \<in> set ''SWFX'' \<or> \<not> is_digit ((d1 # d2 # s) ! Suc i)
          \<or> \<not> is_digit ((d1 # d2 # s) ! Suc (Suc i))"
      by (simp del: set_simps)
  qed
  with "1.IH" [OF no] have "re_search_batch (d1 # d2 # s) = None" by blast
  with re_search_batch_skip [OF no] show ?case by simp
qed simp_all

lemma re_search_batch_length: "re_search_batch s = Some m \<Longrightarrow> length m = 3"
  by (induction s rule: re_search_batch.induct) (auto split: if_splits)

lemma parse_line_batch:
  "parse_line l fi ''batch'' =
     (if \<not> is_role_at_company l \<and> \<not> truthy (fi ''batch'')
      then (case re_search_batch l of Some m \<Rightarrow> Some (PyStr m) | None \<Rightarrow> fi ''batch'')
      else fi ''batch'')"
  by (simp add: parse_line_def role_rule_def split: list.splits option.splits)

lemma fold_batch:
  "fold parse_line ls fi ''batch'' =
     (if truthy (fi ''batch'') then fi ''batch''
      else case List.map_filter re_search_batch (filter (\<lambda>l. \<not> is_role_at_company l) ls) of
             [] \<Rightarrow> fi ''batch''
           | m # _ \<Rightarrow> Some (PyStr m))"
proof (induction ls arbitrary: fi)
  case Nil
  show ?case by (simp add: List.map_filter_simps)
next
  case (Cons l ls)
  show ?case
  proof (cases "\<not> is_role_at_company l \<and> \<not> truthy (fi ''batch'')")
    case False
    then have "parse_line l fi ''batch'' = fi ''batch''"
      by (simp only: parse_line_batch if_False)
    with False show ?thesis
      by (auto simp: Cons.IH List.map_filter_simps cong: list.case_cong)
  next
    case True
    show ?thesis
    proof (cases "re_search_batch l")
      case None
      with True show ?thesis
        by (simp add: Cons.IH parse_line_batch List.map_filter_simps cong: list.case_cong)
    next
      case (Some m)
      then have "m \<noteq> []" using re_search_batch_length by fastforce
      with True Some show ?thesis
        by (simp add: Cons.IH parse_line_batch List.map_filter_simps truthy_def)
    qed
  qed
qed

subsection \<open>The loop over the lines: a bare title keyword\<close>

lemma has_indicator_nonempty: "has_indicator l \<Longrightarrow> l \<noteq> []"
  by (auto simp: has_indicator_def role_indicators_def)

lemma parse_line_role_plain:
  assumes "\<not> is_role_at_company l" and "\<not> truthy (fi ''current_role'')"
  shows "parse_line l fi ''current_role'' =
           (if (re_search_batch l = None \<or> truthy (fi ''batch'')) \<and> has_indicator l
            then Some (PyStr l) else fi ''current_role'')"
  using assms by (auto simp: parse_line_def role_rule_def split: option.splits)

lemma fold_role_plain:
  assumes "\<not> list_ex is_role_at_company ls" and "\<not> truthy (fi ''current_role'')"
  shows "fold parse_line ls fi ''current_role'' =
           (case List.find has_indicator
                   (if truthy (fi ''batch'') then ls
                    else takeWhile (\<lambda>l. re_search_batch l = None) ls
                         @ tl (dropWhile (\<lambda>l. re_search_batch l = None) ls)) of
              None \<Rightarrow> fi ''current_role''
            | Some l \<Rightarrow> Some (PyStr l))"
  using assms
proof (induction ls arbitrary: fi)
  case Nil
  show ?case by simp
next
  case (Cons l ls)
  from Cons.prems have nc: "\<not> is_role_at_company l" and ncs: "\<not> list_ex is_role_at_company ls"
    by auto
  let ?fi = "parse_line l fi"
  have b: "?fi ''batch'' =
             (if \<not> truthy (fi ''batch'')
              then (case re_search_batch l of Some m \<Rightarrow> Some (PyStr m) | None \<Rightarrow> fi ''batch'')
              else fi ''batch'')"
    using nc by (simp add: parse_line_batch)
  have r: "?fi ''current_role'' =
             (if (re_search_batch l = None \<or> truthy (fi ''batch'')) \<and> has_indicator l
              then Some (PyStr l) else fi ''current_role'')"
    using nc Cons.prems(2) by (rule parse_line_role_plain)
  show ?case
  proof (cases "(re_search_batch l = None \<or> truthy (fi ''batch'')) \<and> has_indicator l")
    case True
    then have "truthy (?fi ''current_role'')"
      using r has_indicator_nonempty by (simp add: truthy_def)
    then have "fold parse_line ls ?fi ''current_role'' = Some (PyStr l)"
      using ncs r True by (simp add: fold_keeps_role)
    with True show ?thesis by auto
  next
    case False
    then have keep: "?fi ''current_role'' = fi ''current_role''"
      by (simp only: r if_False)
    then have nt: "\<not> truthy (?fi ''current_role'')"
      using Cons.prems(2) by simp
    note ih = Cons.IH [of "parse_line l fi", OF ncs nt]
    show ?thesis
    proof (cases "truthy (fi ''batch'')")
      case True
      with False b ih keep show ?thesis by (simp cong: option.case_cong)
    next
      case nb: False
      show ?thesis
      proof (cases "re_search_batch l")
        case None
        with nb False b ih keep show ?thesis by (simp cong: option.case_cong)
      next
        case (Some m)
        then have "m \<noteq> []" using re_search_batch_length by fastforce
        with Some nb b have "truthy (?fi ''batch'')" by (simp add: truthy_def)
        with Some nb ih keep show ?thesis by (simp cong: option.case_cong)
      qed
    qed
  qed
qed

subsection \<open>The name line\<close>

lemma set_name_frame:
  "k \<noteq> ''first_name'' \<Longrightarrow> k \<noteq> ''last_name'' \<Longrightarrow> set_name n fi k = fi k"
  by (simp add: set_name_def split: list.splits)

lemma set_name_tokens:
  assumes "split_ws n = tok # toks" and "fi ''last_name'' = Some (PyStr [])"
  shows "set_name n fi ''first_name'' = Some (PyStr tok)"
    and "set_name n fi ''last_name'' = Some (PyStr (join '' '' toks))"
  using assms by (simp_all add: set_name_def split: list.splits)

lemma text_lines_first:
  assumes "split_str [CHR 0x0A] t = pre @ l # post"
      and "list_all (\<lambda>x. strip x = []) pre"
      and "strip l \<noteq> []"
  shows "\<exists>rest. text_lines t = strip l # rest"
proof -
  have "filter (\<lambda>line. strip line \<noteq> []) pre = []"
    using assms(2) by (induction pre) auto
  then show ?thesis
    using assms(1,3) by (simp add: text_lines_def)
qed

lemma parsed_name_fields:
  assumes "text_lines t = n # rest"
  shows "parse_founder_text t ''first_name'' = set_name n empty_info ''first_name''"
    and "parse_founder_text t ''last_name'' = set_name n empty_info ''last_name''"
  using assms
  by (simp_all add: parse_founder_text_def clean_field_other fold_parse_line_frame)

subsection \<open>The claims about the parser\<close>

text \<open>
  Claim C5. The text \<open>"Andy Fang\n**Co-founder** at **DoorDash**\nS13"\<close> parses to first name
  Andy, last name Fang, role Co-founder, company DoorDash and batch S13.
\<close>

theorem parse_andy_fang:
  "parse_founder_text ''Andy Fang\<newline>**Co-founder** at **DoorDash**\<newline>S13'' ''first_name''
     = Some (PyStr ''Andy'')
   \<and> parse_founder_text ''Andy Fang\<newline>**Co-founder** at **DoorDash**\<newline>S13'' ''last_name''
     = Some (PyStr ''Fang'')
   \<and> parse_founder_text ''Andy Fang\<newline>**Co-founder** at **DoorDash**\<newline>S13'' ''current_role''
     = Some (PyStr ''Co-founder'')
   \<and> parse_founder_text ''Andy Fang\<newline>**Co-founder** at **DoorDash**\<newline>S13'' ''current_company''
     = Some (PyStr ''DoorDash'')
   \<and> parse_founder_text ''Andy Fang\<newline>**Co-founder** at **DoorDash**\<newline>S13'' ''batch''
     = Some (PyStr ''S13'')"
  by code_simp

text \<open>
  Claim C3. Let \<open>l\<close> be the first line of the text that is not blank, and let it split on
  whitespace into the tokens \<open>tok # toks\<close>. Then \<open>first_name\<close> is \<open>tok\<close> and \<open>last_name\<close>
  is the remaining tokens joined by single spaces; with a single token (\<open>toks = []\<close>) the join,
  and so \<open>last_name\<close>, is the empty string.
\<close>

theorem name_from_first_line:
  assumes "split_str [CHR 0x0A] t = pre @ l # post"
      and "list_all (\<lambda>x. strip x = []) pre"
      and "split_ws l = tok # toks"
  shows "parse_founder_text t ''first_name'' = Some (PyStr tok)
       \<and> parse_founder_text t ''last_name'' = Some (PyStr (join '' '' toks))"
proof -
  have "strip l \<noteq> []"
    using assms(3) split_ws_empty_iff [of l] by simp
  with assms(1,2) obtain rest where lines: "text_lines t = strip l # rest"
    using text_lines_first by blast
  have toks: "split_ws (strip l) = tok # toks"
    by (simp add: split_ws_strip assms(3))
  have "empty_info ''last_name'' = Some (PyStr [])"
    by (simp add: empty_info_def)
  with toks show ?thesis
    by (simp add: parsed_name_fields [OF lines] set_name_tokens)
qed

text \<open>
  The theorem at a text whose first line is empty and whose name line has three tokens and
  surrounding blanks.
\<close>

theorem name_from_first_line_witness:
  "parse_founder_text ''\<newline>  Andy  van Fang \<newline>CEO'' ''first_name'' = Some (PyStr ''Andy'')
   \<and> parse_founder_text ''\<newline>  Andy  van Fang \<newline>CEO'' ''last_name'' = Some (PyStr ''van Fang'')"
proof -
  have 1: "split_str [CHR 0x0A] ''\<newline>  Andy  van Fang \<newline>CEO''
             = [[]] @ ''  Andy  van Fang '' # [''CEO'']"
    by code_simp
  have 2: "list_all (\<lambda>x. strip x = []) [[]]"
    by code_simp
  have 3: "split_ws ''  Andy  van Fang '' = ''Andy'' # [''van'', ''Fang'']"
    by code_simp
  show ?thesis
    using name_from_first_line [OF 1 2 3] by simp
qed

text \<open>
  Claim C1, as amended. Take the non-empty lines of the text, each stripped. Let
  \<open>x @ " at " @ y\<close> be one of them after the first (the name line), cut at its leftmost
  \<open>" at "\<close>, containing a title keyword, and let no later line contain both \<open>" at "\<close> and a
  keyword. Then \<open>current_role\<close> is \<open>x\<close> stripped, without its \<open>**\<close> markers and stripped again,
  and \<open>current_company\<close> is \<open>y\<close> treated the same way.
\<close>

theorem role_at_company_last_line:
  assumes "text_lines t = n # pre @ (x @ '' at '' @ y) # post"
      and "has_indicator (x @ '' at '' @ y)"
      and "\<not> str_in '' at '' (x @ '' at'')"
      and "\<not> list_ex is_role_at_company post"
  shows "parse_founder_text t ''current_role'' = Some (PyStr (strip (remove_stars (strip x))))
       \<and> parse_founder_text t ''current_company'' = Some (PyStr (strip (remove_stars (strip y))))"
proof -
  have parts: "split_max1 '' at '' (x @ '' at '' @ y) = [x, y]"
    using assms(3) split_max1_leftmost [of "'' at ''" x y] by simp
  then have "str_in '' at '' (x @ '' at '' @ y)"
    by (simp add: str_in_find split_max1_def split: option.splits)
  with assms(2) have "is_role_at_company (x @ '' at '' @ y)"
    by (simp add: is_role_at_company_def)
  from last_role_at_company [OF assms(1) this assms(4) parts] show ?thesis
    by simp
qed

text \<open>
  The theorem at a text with two matching lines, markers, and blanks left behind by the
  markers.
\<close>

theorem role_at_company_last_line_witness:
  "parse_founder_text ''Ann Lee\<newline>CEO at Acme\<newline>** CTO**  at  Beta **Labs**\<newline>W21'' ''current_role''
     = Some (PyStr ''CTO'')
   \<and> parse_founder_text ''Ann Lee\<newline>CEO at Acme\<newline>** CTO**  at  Beta **Labs**\<newline>W21'' ''current_company''
     = Some (PyStr ''Beta Labs'')"
proof -
  have 1: "text_lines ''Ann Lee\<newline>CEO at Acme\<newline>** CTO**  at  Beta **Labs**\<newline>W21''
             = ''Ann Lee'' # [''CEO at Acme''] @ (''** CTO** '' @ '' at '' @ '' Beta **Labs**'') # [''W21'']"
    by code_simp
  have 2: "has_indicator (''** CTO** '' @ '' at '' @ '' Beta **Labs**'')"
    by code_simp
  have 3: "\<not> str_in '' at '' (''** CTO** '' @ '' at'')"
    by code_simp
  have 4: "\<not> list_ex is_role_at_company [''W21'']"
    by code_simp
  have 5: "strip (remove_stars (strip ''** CTO** '')) = ''CTO''"
    by code_simp
  have 6: "strip (remove_stars (strip '' Beta **Labs**'')) = ''Beta Labs''"
    by code_simp
  show ?thesis
    using role_at_company_last_line [OF 1 2 3 4] by (simp only: 5 6)
qed

text \<open>
  Claim C1 as stated fails. The one-line text \<open>"CEO at Acme"\<close> has a line of the form
  \<open>X at Y\<close> with the keyword CEO in \<open>X\<close>, but the first line is read as the name only, so the
  role and the company stay empty. In \<open>"Ann Lee\nCEO at Acme\nCTO at Beta"\<close> the line
  \<open>"CEO at Acme"\<close> has that form too, and the role is not CEO: the later line wins.
\<close>

theorem role_at_company_counterexample:
  "split_str [CHR 0x0A] ''CEO at Acme'' = [''CEO'' @ '' at '' @ ''Acme'']
   \<and> has_indicator ''CEO''
   \<and> parse_founder_text ''CEO at Acme'' ''current_role'' \<noteq> Some (PyStr (strip ''CEO''))
   \<and> parse_founder_text ''CEO at Acme'' ''current_company'' \<noteq> Some (PyStr (strip ''Acme''))
   \<and> split_str [CHR 0x0A] ''Ann Lee\<newline>CEO at Acme\<newline>CTO at Beta''
        = [''Ann Lee'', ''CEO'' @ '' at '' @ ''Acme'', ''CTO at Beta'']
   \<and> parse_founder_text ''Ann Lee\<newline>CEO at Acme\<newline>CTO at Beta'' ''current_role''
        \<noteq> Some (PyStr (strip ''CEO''))"
  by code_simp

text \<open>
  Claim C10, as amended. The lines are the non-empty lines of the text, each stripped of
  surrounding whitespace, as line 170 makes them. When more than one of these stripped lines
  contains both \<open>" at "\<close> and a title keyword, role and company come from the last of them:
  \<open>l\<close> is that line, some earlier line matches as well, no later one does, and \<open>[p0, p1]\<close> is
  \<open>l.split(' at ', 1)\<close>.
\<close>

theorem later_role_at_company_overwrites:
  assumes "text_lines t = pre @ l # post"
      and "list_ex is_role_at_company pre"
      and "is_role_at_company l"
      and "\<not> list_ex is_role_at_company post"
      and "split_max1 '' at '' l = [p0, p1]"
  shows "parse_founder_text t ''current_role'' = Some (PyStr (strip (remove_stars (strip p0))))
       \<and> parse_founder_text t ''current_company'' = Some (PyStr (strip (remove_stars (strip p1))))"
proof -
  from assms(2) obtain n pre' where "pre = n # pre'"
    by (cases pre) auto
  with assms(1) have "text_lines t = n # pre' @ l # post"
    by simp
  from last_role_at_company [OF this assms(3,4,5)] show ?thesis
    by simp
qed

text \<open>
  The theorem at a text with three matching lines; the last one is cut at its first
  \<open>" at "\<close>.
\<close>

theorem later_role_at_company_overwrites_witness:
  "parse_founder_text ''Ann Lee\<newline>CEO at Acme\<newline>VP Sales at Beta\<newline>Chief at Gamma at Delta\<newline>Director'' ''current_role''
     = Some (PyStr ''Chief'')
   \<and> parse_founder_text ''Ann Lee\<newline>CEO at Acme\<newline>VP Sales at Beta\<newline>Chief at Gamma at Delta\<newline>Director'' ''current_company''
     = Some (PyStr ''Gamma at Delta'')"
proof -
  have 1: "text_lines ''Ann Lee\<newline>CEO at Acme\<newline>VP Sales at Beta\<newline>Chief at Gamma at Delta\<newline>Director''
             = [''Ann Lee'', ''CEO at Acme'', ''VP Sales at Beta''] @ ''Chief at Gamma at Delta'' # [''Director'']"
    by code_simp
  have 2: "list_ex is_role_at_company [''Ann Lee'', ''CEO at Acme'', ''VP Sales at Beta'']"
    by code_simp
  have 3: "is_role_at_company ''Chief at Gamma at Delta''"
    by code_simp
  have 4: "\<not> list_ex is_role_at_company [''Director'']"
    by code_simp
  have 5: "split_max1 '' at '' ''Chief at Gamma at Delta'' = [''Chief'', ''Gamma at Delta'']"
    by code_simp
  have 6: "strip (remove_stars (strip ''Chief'')) = ''Chief''"
    by code_simp
  have 7: "strip (remove_stars (strip ''Gamma at Delta'')) = ''Gamma at Delta''"
    by code_simp
  show ?thesis
    using later_role_at_company_overwrites [OF 1 2 3 4 5] by (simp only: 6 7)
qed

text \<open>
  Claim C10 as stated, over the lines of the raw text, fails. In
  \<open>"Ann Lee\nCEO at Acme\nChief at "\<close> two raw lines contain \<open>" at "\<close> and a title keyword, and
  the last of them, \<open>"Chief at "\<close>, would give the role Chief and an empty company. Line 170
  strips it to \<open>"Chief at"\<close>, which no longer contains \<open>" at "\<close>, so the values of the earlier
  line stay: CEO and Acme.
\<close>

theorem later_role_at_company_counterexample:
  "split_str [CHR 0x0A] ''Ann Lee\<newline>CEO at Acme\<newline>Chief at ''
     = [''Ann Lee'', ''CEO at Acme'', ''Chief at '']
   \<and> \<not> is_role_at_company ''Ann Lee''
   \<and> is_role_at_company ''CEO at Acme''
   \<and> is_role_at_company ''Chief at ''
   \<and> split_max1 '' at '' ''Chief at '' = [''Chief'', []]
   \<and> \<not> is_role_at_company (strip ''Chief at '')
   \<and> parse_founder_text ''Ann Lee\<newline>CEO at Acme\<newline>Chief at '' ''current_role''
       = Some (PyStr ''CEO'')
   \<and> parse_founder_text ''Ann Lee\<newline>CEO at Acme\<newline>Chief at '' ''current_company''
       = Some (PyStr ''Acme'')"
  by code_simp

lemma set_name_other:
  "set_name n empty_info ''batch'' = Some (PyStr [])"
  "set_name n empty_info ''current_role'' = Some (PyStr [])"
  "set_name n empty_info ''current_company'' = Some (PyStr [])"
  by (simp_all add: set_name_frame empty_info_def)

text \<open>
  Claim C2, as amended. The candidates are the non-empty stripped lines after the first
  (the name line) that do not match the role-at-company test. \<open>batch\<close> is the leftmost match of
  \<open>[SWFX]\d{2}\<close> in the earliest candidate that has one, and the empty string when no
  candidate has one.
\<close>

theorem batch_first_match:
  "parse_founder_text t ''batch'' =
     Some (PyStr (case List.map_filter re_search_batch
                         (filter (\<lambda>l. \<not> is_role_at_company l) (tl (text_lines t))) of
                    [] \<Rightarrow> []
                  | m # _ \<Rightarrow> m))"
proof (cases "text_lines t")
  case Nil
  then show ?thesis
    by (simp add: parse_founder_text_def empty_info_def List.map_filter_simps)
next
  case (Cons n rest)
  have "parse_founder_text t ''batch'' = fold parse_line rest (set_name n empty_info) ''batch''"
    by (simp add: parse_founder_text_def Cons clean_field_other)
  then show ?thesis
    by (simp add: Cons fold_batch set_name_other truthy_def split: list.splits)
qed

text \<open>
  The theorem at a text whose role-at-company line holds a code that is passed over, and
  whose next line holds two codes.
\<close>

theorem batch_first_match_witness:
  "parse_founder_text ''Ann Lee\<newline>CEO at S21 Labs\<newline>Class of W19 and X25\<newline>F24'' ''batch''
     = Some (PyStr ''W19'')"
proof -
  have "(case List.map_filter re_search_batch
               (filter (\<lambda>l. \<not> is_role_at_company l)
                  (tl (text_lines ''Ann Lee\<newline>CEO at S21 Labs\<newline>Class of W19 and X25\<newline>F24''))) of
           [] \<Rightarrow> []
         | m # _ \<Rightarrow> m) = ''W19''"
    by code_simp
  then show ?thesis
    by (simp only: batch_first_match)
qed

text \<open>
  Claim C2 as stated fails. In \<open>"Ann Lee\nCEO at S21 Labs"\<close> the only substring matching
  \<open>[SWFX]\d{2}\<close> is S21, on a line that the role-at-company rule takes, and \<open>batch\<close> stays
  empty. In the one-line text \<open>"S21 Labs"\<close> the code is on the name line, which is not
  searched.
\<close>

theorem batch_counterexample:
  "split_str [CHR 0x0A] ''Ann Lee\<newline>CEO at S21 Labs'' = [''Ann Lee'', ''CEO at S21 Labs'']
   \<and> re_search_batch ''Ann Lee'' = None
   \<and> re_search_batch ''CEO at S21 Labs'' = Some ''S21''
   \<and> parse_founder_text ''Ann Lee\<newline>CEO at S21 Labs'' ''batch'' = Some (PyStr [])
   \<and> split_str [CHR 0x0A] ''S21 Labs'' = [''S21 Labs'']
   \<and> re_search_batch ''S21 Labs'' = Some ''S21''
   \<and> parse_founder_text ''S21 Labs'' ''batch'' = Some (PyStr [])"
  by code_simp

text \<open>
  Claim C4, as amended. Let no line after the first (of the non-empty stripped lines) match the
  role-at-company test. Leave out the name line and the first line that contains a batch
  code (that line sets \<open>batch\<close> and nothing else). \<open>current_role\<close> is the first remaining line
  that contains a title keyword, without its \<open>**\<close> markers and then stripped of surrounding
  whitespace; it is empty when no remaining line contains a keyword. \<open>current_company\<close> is
  empty.
\<close>

theorem bare_role_line:
  assumes "\<not> list_ex is_role_at_company (tl (text_lines t))"
  shows "parse_founder_text t ''current_role'' =
           Some (PyStr (case List.find has_indicator
                               (takeWhile (\<lambda>l. re_search_batch l = None) (tl (text_lines t))
                                @ tl (dropWhile (\<lambda>l. re_search_batch l = None) (tl (text_lines t)))) of
                          None \<Rightarrow> []
                        | Some l \<Rightarrow> strip (remove_stars l)))
       \<and> parse_founder_text t ''current_company'' = Some (PyStr [])"
proof (cases "text_lines t")
  case Nil
  then show ?thesis
    by (simp add: parse_founder_text_def empty_info_def)
next
  case (Cons n rest)
  define fi where "fi = fold parse_line rest (set_name n empty_info)"
  let ?cands = "takeWhile (\<lambda>l. re_search_batch l = None) rest
                @ tl (dropWhile (\<lambda>l. re_search_batch l = None) rest)"
  from assms Cons have nc: "\<not> list_ex is_role_at_company rest"
    by simp
  have p: "parse_founder_text t = clean_field ''current_company'' (clean_field ''current_role'' fi)"
    by (simp add: parse_founder_text_def Cons fi_def)
  have c: "fi ''current_company'' = Some (PyStr [])"
    unfolding fi_def using nc by (simp add: fold_keeps_company set_name_other)
  have "\<not> truthy (set_name n empty_info ''current_role'')"
    by (simp add: set_name_other truthy_def)
  from fold_role_plain [of rest "set_name n empty_info", OF nc this]
  have r: "fi ''current_role'' =
             (case List.find has_indicator ?cands of
                None \<Rightarrow> Some (PyStr [])
              | Some l \<Rightarrow> Some (PyStr l))"
    by (simp add: fi_def set_name_other truthy_def cong: option.case_cong)
  have role: "clean_field ''current_role'' fi ''current_role'' =
                Some (PyStr (case List.find has_indicator ?cands of
                               None \<Rightarrow> []
                             | Some l \<Rightarrow> strip (remove_stars l)))"
  proof (cases "List.find has_indicator ?cands")
    case None
    with r show ?thesis by (simp add: clean_field_def)
  next
    case (Some l)
    with r show ?thesis by (simp add: clean_field_same)
  qed
  have "clean_field ''current_role'' fi ''current_company'' = Some (PyStr [])"
    by (simp add: clean_field_other c)
  then have "parse_founder_text t ''current_company'' = Some (PyStr [])"
    by (simp add: p clean_field_def)
  moreover have "parse_founder_text t ''current_role'' = clean_field ''current_role'' fi ''current_role''"
    by (simp add: p clean_field_other)
  ultimately show ?thesis
    using role by (simp add: Cons)
qed

text \<open>
  The theorem at a text with a keyword on the name line, a keyword on the batch line, and
  markers that leave a blank behind.
\<close>

theorem bare_role_line_witness:
  "parse_founder_text ''CEO Ann\<newline>Chief S21\<newline>** Founder** W22\<newline>CTO'' ''current_role''
     = Some (PyStr ''Founder W22'')
   \<and> parse_founder_text ''CEO Ann\<newline>Chief S21\<newline>** Founder** W22\<newline>CTO'' ''current_company''
     = Some (PyStr [])"
proof -
  have 1: "\<not> list_ex is_role_at_company
              (tl (text_lines ''CEO Ann\<newline>Chief S21\<newline>** Founder** W22\<newline>CTO''))"
    by code_simp
  have 2: "(case List.find has_indicator
                   (takeWhile (\<lambda>l. re_search_batch l = None)
                      (tl (text_lines ''CEO Ann\<newline>Chief S21\<newline>** Founder** W22\<newline>CTO''))
                    @ tl (dropWhile (\<lambda>l. re_search_batch l = None)
                      (tl (text_lines ''CEO Ann\<newline>Chief S21\<newline>** Founder** W22\<newline>CTO'')))) of
              None \<Rightarrow> []
            | Some l \<Rightarrow> strip (remove_stars l)) = ''Founder W22''"
    by code_simp
  show ?thesis
    using bare_role_line [OF 1] by (simp only: 2)
qed

text \<open>
  Claim C4 as stated fails. In \<open>"Ann Lee\nCEO S21"\<close> no line matches the role-at-company
  test and the line \<open>"CEO S21"\<close> contains a keyword, but that line is taken as the batch
  line and the role stays empty. In the one-line text \<open>"CEO"\<close> the keyword is on the name
  line.
\<close>

theorem bare_role_counterexample:
  "text_lines ''Ann Lee\<newline>CEO S21'' = [''Ann Lee'', ''CEO S21'']
   \<and> \<not> list_ex is_role_at_company [''Ann Lee'', ''CEO S21'']
   \<and> \<not> has_indicator ''Ann Lee''
   \<and> has_indicator ''CEO S21''
   \<and> parse_founder_text ''Ann Lee\<newline>CEO S21'' ''current_role'' \<noteq> Some (PyStr (remove_stars ''CEO S21''))
   \<and> text_lines ''CEO'' = [''CEO'']
   \<and> \<not> is_role_at_company ''CEO''
   \<and> has_indicator ''CEO''
   \<and> parse_founder_text ''CEO'' ''current_role'' \<noteq> Some (PyStr (remove_stars ''CEO''))"
  by code_simp

section \<open>Properties of the profile link resolver\<close>

lemma classify_step:
  "classify Raised (personal, company) = (personal, company)"
  "classify (Returned None) (personal, company) = (personal, company)"
  "classify (Returned (Some u)) (personal, company) =
     (if \<not> str_in ''linkedin.com'' u then (personal, company)
      else if str_in ''/in/'' u then (personal @ [u], company)
      else if str_in ''/company/'' u then (personal, company @ [u])
      else if str_in ''/pub/'' u then (personal @ [u], company)
      else (personal, company))"
  by (auto simp: classify_def)

lemma fold_classify:
  "fold classify elements (personal, company) =
     (personal @ filter (\<lambda>u. str_in ''/in/'' u \<or> (str_in ''/pub/'' u \<and> \<not> str_in ''/company/'' u))
        (List.map_filter (\<lambda>e. case e of
            Returned (Some u) \<Rightarrow> if str_in ''linkedin.com'' u then Some u else None
          | _ \<Rightarrow> None) elements),
      company @ filter (\<lambda>u. str_in ''/company/'' u \<and> \<not> str_in ''/in/'' u)
        (List.map_filter (\<lambda>e. case e of
            Returned (Some u) \<Rightarrow> if str_in ''linkedin.com'' u then Some u else None
          | _ \<Rightarrow> None) elements))"
proof (induction elements arbitrary: personal company)
  case Nil
  show ?case by (simp add: List.map_filter_simps)
next
  case (Cons e elements)
  show ?case
  proof (cases e)
    case Raised
    then show ?thesis
      by (simp add: classify_step Cons.IH List.map_filter_simps)
  next
    case (Returned h)
    show ?thesis
    proof (cases h)
      case None
      with Returned show ?thesis
        by (simp add: classify_step Cons.IH List.map_filter_simps)
    next
      case (Some u)
      with Returned show ?thesis
        by (simp add: classify_step Cons.IH List.map_filter_simps)
    qed
  qed
qed

lemma best_match_find: "best_match name urls = List.find (name_match name) urls"
  by (induction urls) auto

lemma name_match_fragment:
  "name_match name u \<longleftrightarrow>
     list_ex (\<lambda>part. length part > 2 \<and> str_in part (linkedin_username u)) (split_str ''-'' name)"
proof (cases "name = []")
  case True
  then show ?thesis by (simp add: name_match_def)
next
  case False
  then show ?thesis
    by (simp add: name_match_def list_ex_iff del: split_str.simps) blast
qed

text \<open>
  Claim C6, as amended. For a profile page that loaded, take the links whose \<open>href\<close> was
  read and contains \<open>linkedin.com\<close>, in the order of discovery. A link is personal when it
  contains \<open>/in/\<close>, or contains \<open>/pub/\<close> and not \<open>/company/\<close>; it is organizational when
  it contains \<open>/company/\<close> and not \<open>/in/\<close>. The result is the first personal link whose token
  (\<open>linkedin_username\<close>) contains a fragment longer than 2 of the name read from the profile
  URL's slug; without such a link, the first personal link; without a personal link, the
  first organizational link; otherwise none.
\<close>

theorem extract_linkedin_url_choice:
  assumes "profile_url \<noteq> []"
  shows "extract_linkedin_url (Loaded elements) profile_url =
     (let urls = List.map_filter (\<lambda>e. case e of
                     Returned (Some u) \<Rightarrow> if str_in ''linkedin.com'' u then Some u else None
                   | _ \<Rightarrow> None) elements;
          personal = filter (\<lambda>u. str_in ''/in/'' u \<or> (str_in ''/pub/'' u \<and> \<not> str_in ''/company/'' u)) urls;
          company = filter (\<lambda>u. str_in ''/company/'' u \<and> \<not> str_in ''/in/'' u) urls
      in case List.find
                (\<lambda>u. list_ex (\<lambda>part. length part > 2 \<and> str_in part (linkedin_username u))
                        (split_str ''-'' (founder_name_from_url profile_url)))
                personal of
           Some u \<Rightarrow> Some u
         | None \<Rightarrow>
             (case personal of
                p # _ \<Rightarrow> Some p
              | [] \<Rightarrow> (case company of c # _ \<Rightarrow> Some c | [] \<Rightarrow> None)))"
proof -
  have m: "name_match (founder_name_from_url profile_url) =
             (\<lambda>u. list_ex (\<lambda>part. length part > 2 \<and> str_in part (linkedin_username u))
                     (split_str ''-'' (founder_name_from_url profile_url)))"
    by (rule ext) (rule name_match_fragment)
  show ?thesis
    using assms
    by (simp add: extract_linkedin_url_def fold_classify [of elements "[]" "[]", simplified]
          best_match_find m Let_def del: split_str.simps
          split: option.splits list.splits)
qed

text \<open>
  The theorem at a page with a company link first, two personal links, an element whose
  attribute cannot be read and one without \<open>href\<close>: the second personal link matches the
  name.
\<close>

theorem extract_linkedin_url_choice_witness:
  "extract_linkedin_url
     (Loaded [Returned (Some ''https://www.linkedin.com/company/doordash''),
              Returned (Some ''https://www.linkedin.com/in/tonyxu''),
              Raised,
              Returned None,
              Returned (Some ''https://www.linkedin.com/in/AndyFang/'')])
     ''https://www.ycombinator.com/founders/38677-andy-fang''
   = Some ''https://www.linkedin.com/in/AndyFang/''"
  by (subst extract_linkedin_url_choice; code_simp)

text \<open>
  Claim C6 as stated fails. The first link contains \<open>/pub/\<close>, so the claim counts it as
  personal, and no token contains a name fragment, so the claim selects it as the first
  personal link. The code files it under the company links, because it tests \<open>/company/\<close>
  before \<open>/pub/\<close>, and returns the second link.
\<close>

theorem extract_linkedin_url_counterexample:
  "str_in ''linkedin.com'' ''https://www.linkedin.com/company/pub/''
   \<and> str_in ''/pub/'' ''https://www.linkedin.com/company/pub/''
   \<and> \<not> name_match (founder_name_from_url ''https://www.ycombinator.com/founders/1-jane-doe'')
         ''https://www.linkedin.com/company/pub/''
   \<and> \<not> name_match (founder_name_from_url ''https://www.ycombinator.com/founders/1-jane-doe'')
         ''https://www.linkedin.com/pub/jane-doe/1/2/3''
   \<and> extract_linkedin_url
         (Loaded [Returned (Some ''https://www.linkedin.com/company/pub/''),
                  Returned (Some ''https://www.linkedin.com/pub/jane-doe/1/2/3'')])
         ''https://www.ycombinator.com/founders/1-jane-doe''
       = Some ''https://www.linkedin.com/pub/jane-doe/1/2/3''"
  by code_simp

section \<open>Properties of the exporter\<close>

text \<open>
  Claim C7. With no records the call returns and the file system is left as it was, whether
  or not the file could be opened. With \<open>N \<ge> 1\<close> records and a file that \<open>open\<close> can open
  for writing, the call returns and the file holds the header row with the seven columns in
  their fixed order, followed by one row per record in the order of the records, so \<open>N\<close>
  data rows; a cell is the record's string for the column and the empty string when the
  record lacks the field (or holds \<open>None\<close>). No other file changes.
\<close>

theorem save_to_csv_rows:
  "save_to_csv can_open [] filename fs = Returned fs
   \<and> (data \<noteq> [] \<and> can_open filename \<longrightarrow>
        (let rows = map (\<lambda>founder.
                           map (\<lambda>col. case founder col of Some (PyStr s) \<Rightarrow> s | _ \<Rightarrow> [])
                             [''first_name'', ''last_name'', ''current_role'', ''current_company'',
                              ''batch'', ''linkedin_url'', ''profile_url''])
                      data
         in save_to_csv can_open data filename fs =
              Returned (fs(filename \<mapsto>
                 [''first_name'', ''last_name'', ''current_role'', ''current_company'', ''batch'',
                  ''linkedin_url'', ''profile_url''] # rows))
            \<and> length rows = length data))"
proof -
  have rows: "map (\<lambda>founder.
                     map (\<lambda>col. case founder col of Some (PyStr s) \<Rightarrow> s | _ \<Rightarrow> [])
                       [''first_name'', ''last_name'', ''current_role'', ''current_company'',
                        ''batch'', ''linkedin_url'', ''profile_url''])
                data = map writerow data"
    by (rule map_cong [OF refl])
       (simp add: writerow_def columns_def cell_def dict_get_def
          split: option.splits pyval.splits)
  show ?thesis
    unfolding Let_def rows
    by (simp add: save_to_csv_def columns_def)
qed

text \<open>
  The theorem at two records, the first with some fields and a \<open>None\<close>, the second with no
  field at all, and a file system in which only \<open>yc_founders.csv\<close> can be opened.
\<close>

theorem save_to_csv_rows_witness:
  "save_to_csv (\<lambda>name. name = ''yc_founders.csv'')
     [[''first_name'' \<mapsto> PyStr ''Andy'', ''batch'' \<mapsto> PyStr ''S13'', ''profile_url'' \<mapsto> PyNone],
      Map.empty]
     ''yc_founders.csv'' Map.empty
   = Returned
       [''yc_founders.csv'' \<mapsto>
          [[''first_name'', ''last_name'', ''current_role'', ''current_company'', ''batch'',
            ''linkedin_url'', ''profile_url''],
           [''Andy'', [], [], [], ''S13'', [], []],
           [[], [], [], [], [], [], []]]]"
  using save_to_csv_rows
    [of "\<lambda>name. name = ''yc_founders.csv''" "''yc_founders.csv''" Map.empty
        "[[''first_name'' \<mapsto> PyStr ''Andy'', ''batch'' \<mapsto> PyStr ''S13'', ''profile_url'' \<mapsto> PyNone],
          Map.empty]"]
  by (simp add: Let_def)

text \<open>
  When the file cannot be opened, a call with records raises and writes nothing.
\<close>

lemma save_to_csv_open_fails:
  "data \<noteq> [] \<Longrightarrow> \<not> can_open filename \<Longrightarrow> save_to_csv can_open data filename fs = Raised"
  by (simp add: save_to_csv_def)

section \<open>Properties of the exhaustive loader\<close>

text \<open>
  Claim C8 at a page that never changes: the height is 1000 before and in every iteration,
  and five founder cards are found every time. The loop ends in its second iteration. The
  counter is incremented twice in an iteration without growth (once for the founder count,
  once for the height), so it reaches 3 after two height checks, not after three
  iterations without growth as the comment of line 116 says.
\<close>

theorem scroll_stops_after_two_checks:
  "scroll_to_load_all_founders 1000 (\<lambda>i. (1000, 5)) = Some (2, 5)"
  unfolding scroll_to_load_all_founders_def
  by (subst scroll_loop.simps, simp add: Let_def)+

text \<open>
  The second half of the claim holds: once the page has stopped changing, the loop ends
  within three more iterations.
\<close>

lemma scroll_loop_stable:
  assumes "page i = (h, c)" and "page (Suc i) = (h, c)" and "c \<le> loaded"
  shows "scroll_loop page i h loaded n = Some (if n = 0 then i + 2 else i + 1, loaded)"
proof (cases "n = 0")
  case True
  have "scroll_loop page i h loaded 0 = scroll_loop page (Suc i) h loaded (Suc (Suc 0))"
    using assms by (subst scroll_loop.simps) (simp add: Let_def)
  also have "\<dots> = Some (i + 2, loaded)"
    using assms by (subst scroll_loop.simps) (simp add: Let_def)
  finally show ?thesis using True by simp
next
  case False
  then show ?thesis
    using assms by (subst scroll_loop.simps) (simp add: Let_def)
qed

lemma scroll_loop_step:
  "(\<exists>fl. scroll_loop page i lh loaded n = Some (i + 1, fl))
   \<or> (\<exists>loaded' n'. snd (page i) \<le> loaded'
         \<and> scroll_loop page i lh loaded n = scroll_loop page (Suc i) (fst (page i)) loaded' n')"
proof -
  define loaded' where "loaded' = (if snd (page i) > loaded then snd (page i) else loaded)"
  define c1 where "c1 = (if snd (page i) > loaded then 0 else n + 1)"
  have le: "snd (page i) \<le> loaded'"
    by (simp add: loaded'_def)
  have eq: "scroll_loop page i lh loaded n =
              (if fst (page i) = lh then
                 (if c1 + 1 \<ge> 3 then Some (i + 1, loaded')
                  else scroll_loop page (i + 1) (fst (page i)) loaded' (c1 + 1))
               else scroll_loop page (i + 1) (fst (page i)) loaded' 0)"
    unfolding loaded'_def c1_def by (subst scroll_loop.simps) (simp add: Let_def)
  show ?thesis
  proof (cases "fst (page i) = lh \<and> c1 + 1 \<ge> 3")
    case True
    then show ?thesis using eq by simp
  next
    case False
    then have "scroll_loop page i lh loaded n =
                 scroll_loop page (Suc i) (fst (page i)) loaded'
                   (if fst (page i) = lh then c1 + 1 else 0)"
      using eq by auto
    with le show ?thesis by blast
  qed
qed

lemma scroll_loop_terminates:
  assumes "\<forall>j\<ge>k. page j = page k" and "i \<le> k"
  shows "\<exists>m fl. scroll_loop page i lh loaded n = Some (m, fl) \<and> m \<le> k + 3"
  using assms(2)
proof (induction "k - i" arbitrary: i lh loaded n)
  case 0
  then have ik: "i = k" by simp
  from scroll_loop_step [of page k lh loaded n] show ?case
  proof (elim disjE exE conjE)
    fix fl assume "scroll_loop page k lh loaded n = Some (k + 1, fl)"
    then show ?thesis using ik by simp
  next
    fix loaded' n'
    assume le: "snd (page k) \<le> loaded'"
      and eq: "scroll_loop page k lh loaded n
                 = scroll_loop page (Suc k) (fst (page k)) loaded' n'"
    have 1: "page (Suc k) = (fst (page k), snd (page k))"
      using assms(1) [rule_format, of "Suc k"] by simp
    have 2: "page (Suc (Suc k)) = (fst (page k), snd (page k))"
      using assms(1) [rule_format, of "Suc (Suc k)"] by simp
    from scroll_loop_stable [of page "Suc k" "fst (page k)" "snd (page k)" loaded' n', OF 1 2 le] eq ik
    show ?thesis by simp
  qed
next
  case (Suc d)
  then have lt: "i < k" and d: "d = k - Suc i" by simp_all
  from scroll_loop_step [of page i lh loaded n] show ?case
  proof (elim disjE exE conjE)
    fix fl assume "scroll_loop page i lh loaded n = Some (i + 1, fl)"
    then show ?thesis using lt by simp
  next
    fix loaded' n'
    assume "scroll_loop page i lh loaded n
              = scroll_loop page (Suc i) (fst (page i)) loaded' n'"
    moreover from lt have "Suc i \<le> k" by simp
    ultimately show ?thesis
      using Suc.hyps(1) [OF d, of "fst (page i)" loaded' n'] by simp
  qed
qed

lemma scroll_terminates_on_stable_page:
  assumes "\<forall>j\<ge>k. page j = page k"
  shows "\<exists>m fl. scroll_to_load_all_founders height0 page = Some (m, fl) \<and> m \<le> k + 3"
  unfolding scroll_to_load_all_founders_def
  using scroll_loop_terminates [OF assms, of 0] by simp

section \<open>Properties of the records\<close>

text \<open>
  Claim C9 at a listing with one founder card whose \<open>href\<close> attribute is missing
  (\<open>get_attribute\<close> returns \<open>None\<close>): the record handed on holds \<open>None\<close> under
  \<open>profile_url\<close>, not a string.
\<close>

theorem profile_url_null:
  "map (\<lambda>founder. founder ''profile_url'')
     (scrape_founders
        (Listing [\<lparr>href = Returned None, text_content = Returned ''Andy Fang''\<rparr>] [])
        (\<lambda>profile_url. Failed))
   = [Some PyNone]"
  by code_simp

text \<open>
  What holds of every record: the seven fields are present, and the six fields other than
  \<open>profile_url\<close> are strings.
\<close>

lemma empty_info_strings:
  "list_all (\<lambda>k. \<exists>s. empty_info k = Some (PyStr s))
     [''first_name'', ''last_name'', ''current_role'', ''current_company'', ''batch'',
      ''linkedin_url'']"
  by (simp add: empty_info_def)

lemma set_name_strings:
  assumes "list_all (\<lambda>k. \<exists>s. fi k = Some (PyStr s))
     [''first_name'', ''last_name'', ''current_role'', ''current_company'', ''batch'',
      ''linkedin_url'']"
  shows "list_all (\<lambda>k. \<exists>s. set_name n fi k = Some (PyStr s))
     [''first_name'', ''last_name'', ''current_role'', ''current_company'', ''batch'',
      ''linkedin_url'']"
  using assms by (simp add: set_name_def split: list.splits)

lemma parse_line_strings:
  assumes "list_all (\<lambda>k. \<exists>s. fi k = Some (PyStr s))
     [''first_name'', ''last_name'', ''current_role'', ''current_company'', ''batch'',
      ''linkedin_url'']"
  shows "list_all (\<lambda>k. \<exists>s. parse_line l fi k = Some (PyStr s))
     [''first_name'', ''last_name'', ''current_role'', ''current_company'', ''batch'',
      ''linkedin_url'']"
  using assms by (simp add: parse_line_def role_rule_def split: list.splits option.splits)

lemma fold_parse_line_strings:
  assumes "list_all (\<lambda>k. \<exists>s. fi k = Some (PyStr s))
     [''first_name'', ''last_name'', ''current_role'', ''current_company'', ''batch'',
      ''linkedin_url'']"
  shows "list_all (\<lambda>k. \<exists>s. fold parse_line ls fi k = Some (PyStr s))
     [''first_name'', ''last_name'', ''current_role'', ''current_company'', ''batch'',
      ''linkedin_url'']"
  using assms
proof (induction ls arbitrary: fi)
  case Nil
  then show ?case by simp
next
  case (Cons l ls)
  from Cons.IH [OF parse_line_strings [OF Cons.prems]] show ?case by simp
qed

lemma clean_field_strings:
  assumes "list_all (\<lambda>k. \<exists>s. fi k = Some (PyStr s))
     [''first_name'', ''last_name'', ''current_role'', ''current_company'', ''batch'',
      ''linkedin_url'']"
  shows "list_all (\<lambda>k. \<exists>s. clean_field f fi k = Some (PyStr s))
     [''first_name'', ''last_name'', ''current_role'', ''current_company'', ''batch'',
      ''linkedin_url'']"
  using assms by (simp add: clean_field_def split: option.splits pyval.splits)

lemma parse_founder_text_strings:
  "list_all (\<lambda>k. \<exists>s. parse_founder_text t k = Some (PyStr s))
     [''first_name'', ''last_name'', ''current_role'', ''current_company'', ''batch'',
      ''linkedin_url'']"
proof (cases "text_lines t")
  case Nil
  then show ?thesis
    using empty_info_strings by (simp add: parse_founder_text_def)
next
  case (Cons n rest)
  have "parse_founder_text t =
          clean_field ''current_company''
            (clean_field ''current_role'' (fold parse_line rest (set_name n empty_info)))"
    by (simp add: parse_founder_text_def Cons)
  then show ?thesis
    using clean_field_strings [OF clean_field_strings [OF fold_parse_line_strings
            [OF set_name_strings [OF empty_info_strings]]]]
    by simp
qed

lemma founder_of_element_fields:
  assumes "founder_of_element e = Some founder"
  shows "list_all (\<lambda>k. \<exists>s. founder k = Some (PyStr s))
           [''first_name'', ''last_name'', ''current_role'', ''current_company'', ''batch'',
            ''linkedin_url'']
         \<and> founder ''profile_url'' \<noteq> None"
  using assms parse_founder_text_strings
  by (auto simp: founder_of_element_def split: outcome.splits)

lemma add_linkedin_url_fields:
  assumes "list_all (\<lambda>k. \<exists>s. founder k = Some (PyStr s))
           [''first_name'', ''last_name'', ''current_role'', ''current_company'', ''batch'',
            ''linkedin_url'']
         \<and> founder ''profile_url'' \<noteq> None"
  shows "list_all (\<lambda>k. \<exists>s. add_linkedin_url site founder k = Some (PyStr s))
           [''first_name'', ''last_name'', ''current_role'', ''current_company'', ''batch'',
            ''linkedin_url'']
         \<and> add_linkedin_url site founder ''profile_url'' \<noteq> None"
  using assms by (auto simp: add_linkedin_url_def split: option.splits pyval.splits)

lemma scraped_fields:
  assumes "founder \<in> set (scrape_founders page site)"
  shows "list_all (\<lambda>k. \<exists>s. founder k = Some (PyStr s))
           [''first_name'', ''last_name'', ''current_role'', ''current_company'', ''batch'',
            ''linkedin_url'']
         \<and> founder ''profile_url'' \<noteq> None"
proof (cases page)
  case Listing_Failed
  with assms show ?thesis by (simp add: scrape_founders_def)
next
  case (Listing primary fallback)
  with assms obtain e f where "founder_of_element e = Some f"
    and "founder = add_linkedin_url site f"
    by (auto simp: scrape_founders_def extract_founder_overview_data_def List.map_filter_def
          split: if_splits)
  then show ?thesis
    using add_linkedin_url_fields [OF founder_of_element_fields] by blast
qed

end
